theory Spec2Isabelle
  imports Main "HOL-Library.AList"
begin

section \<open>JavaScript values\<close>

text \<open>
  The session store (\<^verbatim>\<open>src/util/sessions.ts\<close>) keeps JSON texts in \<^verbatim>\<open>localStorage\<close>
  and works on what \<^verbatim>\<open>JSON.parse\<close> makes of them. A value is one of the JavaScript
  values that can turn up there; an object is the list of its own properties in insertion
  order, read from the front.
\<close>

datatype jsval =
    JUndefined
  | JNull
  | JBool bool
  | JNum int
  | JNaN
  | JStr string
  | JArr "jsval list"
  | JObj "(string \<times> jsval) list"

datatype error = SyntaxError | TypeError | ReferenceError

text \<open>\<^verbatim>\<open>Boolean(v)\<close>, the test of \<^verbatim>\<open>if (v)\<close>, \<^verbatim>\<open>!v\<close>, \<^verbatim>\<open>a && b\<close> and \<^verbatim>\<open>a || b\<close>.\<close>

fun truthy :: "jsval \<Rightarrow> bool" where
  "truthy JUndefined = False"
| "truthy JNull = False"
| "truthy (JBool b) = b"
| "truthy (JNum n) = (n \<noteq> 0)"
| "truthy JNaN = False"
| "truthy (JStr s) = (s \<noteq> [])"
| "truthy (JArr xs) = True"
| "truthy (JObj kvs) = True"

fun nullish :: "jsval \<Rightarrow> bool" where
  "nullish JUndefined = True"
| "nullish JNull = True"
| "nullish v = False"

text \<open>
  \<^verbatim>\<open>v.p\<close> for a value that is neither \<^verbatim>\<open>undefined\<close> nor \<^verbatim>\<open>null\<close>, and for the property
  names of this module (\<^verbatim>\<open>dcId\<close>, \<^verbatim>\<open>isTest\<close>, \<^verbatim>\<open>userId\<close>, \<^verbatim>\<open>dcN_auth_key\<close>, \<^verbatim>\<open>id\<close>, \<^verbatim>\<open>dcID\<close>,
  \<^verbatim>\<open>test\<close>, \<^verbatim>\<open>apiId\<close>, \<^verbatim>\<open>apiHash\<close>), none of which a prototype defines: an own property
  of an object, \<^verbatim>\<open>undefined\<close> otherwise.
\<close>

fun property :: "jsval \<Rightarrow> string \<Rightarrow> jsval" where
  "property (JObj kvs) p = (case map_of kvs p of Some v \<Rightarrow> v | None \<Rightarrow> JUndefined)"
| "property v p = JUndefined"

text \<open>\<^verbatim>\<open>v.p\<close> in general: a \<^verbatim>\<open>TypeError\<close> on \<^verbatim>\<open>undefined\<close> and \<^verbatim>\<open>null\<close>.\<close>

definition member :: "jsval \<Rightarrow> string \<Rightarrow> error + jsval" where
  "member v p = (if nullish v then Inl TypeError else Inr (property v p))"

text \<open>\<^verbatim>\<open>v?.p\<close>.\<close>

definition opt_member :: "jsval \<Rightarrow> string \<Rightarrow> jsval" where
  "opt_member v p = (if nullish v then JUndefined else property v p)"

text \<open>\<^verbatim>\<open>{...v}\<close>: the own properties of an object, nothing for \<^verbatim>\<open>undefined\<close>.\<close>

fun spread :: "jsval \<Rightarrow> (string \<times> jsval) list" where
  "spread (JObj kvs) = kvs"
| "spread v = []"

text \<open>\<^verbatim>\<open>String(n)\<close> for an integer: its decimal digits.\<close>

definition digit :: "nat \<Rightarrow> char" where
  "digit d = ''0123456789'' ! d"

function string_of_nat :: "nat \<Rightarrow> string" where
  "string_of_nat n =
     (if n < 10 then [digit n] else string_of_nat (n div 10) @ [digit (n mod 10)])"
  by pat_completeness auto
termination
  by (relation "measure (\<lambda>n. n)") auto

declare string_of_nat.simps [simp del]

definition String_of :: "int \<Rightarrow> string" where
  "String_of i = (if i < 0 then CHR ''-'' # string_of_nat (nat (- i)) else string_of_nat (nat i))"

section \<open>The environment of the module\<close>

text \<open>
  What \<^verbatim>\<open>sessions.ts\<close> imports and does not define is a parameter of the model:
  the constants of \<^verbatim>\<open>config\<close>, \<^verbatim>\<open>ACCOUNT_SLOT\<close> of \<^verbatim>\<open>multiaccount\<close> (a number or
  \<^verbatim>\<open>undefined\<close>), and the built-in functions \<^verbatim>\<open>JSON.parse\<close> (\<open>None\<close> when it throws
  \<^verbatim>\<open>SyntaxError\<close>), \<^verbatim>\<open>JSON.stringify\<close> and \<^verbatim>\<open>Number\<close>. Every theorem holds for every choice
  of them.
\<close>

record env =
  parse_text :: "string \<Rightarrow> jsval option"
  stringify :: "jsval \<Rightarrow> string"
  to_number :: "jsval \<Rightarrow> jsval"
  ACCOUNT_SLOT :: "int option"
  DEBUG :: bool
  DC_IDS :: "int list"
  IS_SCREEN_LOCKED_CACHE_KEY :: string
  SESSION_ACCOUNT_PREFIX :: string
  SESSION_LEGACY_USER_KEY :: string

text \<open>
  \<^verbatim>\<open>JSON.parse(s)\<close>. The two literals the module itself passes, \<^verbatim>\<open>'{}'\<close> and \<^verbatim>\<open>'null'\<close>,
  have the value the JSON grammar gives them; every other text is read by the parameter.
\<close>

definition JSON_parse :: "env \<Rightarrow> string \<Rightarrow> error + jsval" where
  "JSON_parse E s =
     (if s = ''{}'' then Inr (JObj [])
      else if s = ''null'' then Inr JNull
      else case parse_text E s of None \<Rightarrow> Inl SyntaxError | Some v \<Rightarrow> Inr v)"

text \<open>\<^verbatim>\<open>Number(v)\<close>: a number is itself; the conversion of any other value is the parameter's.\<close>

definition Number_of :: "env \<Rightarrow> jsval \<Rightarrow> jsval" where
  "Number_of E v = (case v of JNum n \<Rightarrow> JNum n | _ \<Rightarrow> to_number E v)"

text \<open>\<^verbatim>\<open>!slot\<close> and \<^verbatim>\<open>slot || 1\<close> for \<^verbatim>\<open>slot: number | undefined\<close>.\<close>

definition no_slot :: "int option \<Rightarrow> bool" where
  "no_slot slot = (case slot of None \<Rightarrow> True | Some n \<Rightarrow> n = 0)"

definition slot_or_1 :: "int option \<Rightarrow> int" where
  "slot_or_1 slot = (case slot of None \<Rightarrow> 1 | Some n \<Rightarrow> if n = 0 then 1 else n)"

section \<open>localStorage\<close>

type_synonym storage = "string \<rightharpoonup> string"

definition getItem :: "storage \<Rightarrow> string \<Rightarrow> string option" where
  "getItem st k = st k"

definition setItem :: "string \<Rightarrow> string \<Rightarrow> storage \<Rightarrow> storage" where
  "setItem k v st = st(k \<mapsto> v)"

definition removeItem :: "string \<Rightarrow> storage \<Rightarrow> storage" where
  "removeItem k st = st(k := None)"

text \<open>\<^verbatim>\<open>localStorage.getItem(k) || d\<close>: the default for a missing and for an empty item.\<close>

definition getItem_or :: "storage \<Rightarrow> string \<Rightarrow> string \<Rightarrow> string" where
  "getItem_or st k d = (case getItem st k of None \<Rightarrow> d | Some s \<Rightarrow> if s = [] then d else s)"

text \<open>The key of a slot, \<^verbatim>\<open>`${SESSION_ACCOUNT_PREFIX}${slot || 1}`\<close>.\<close>

definition slot_key :: "env \<Rightarrow> int option \<Rightarrow> string" where
  "slot_key E slot = SESSION_ACCOUNT_PREFIX E @ String_of (slot_or_1 slot)"

text \<open>The legacy keys \<^verbatim>\<open>`dc${dcId}_auth_key`\<close> and \<^verbatim>\<open>`dc${dcId}_hash`\<close>.\<close>

definition auth_key_name :: "int \<Rightarrow> string" where
  "auth_key_name dcId = ''dc'' @ String_of dcId @ ''_auth_key''"

definition hash_name :: "int \<Rightarrow> string" where
  "hash_name dcId = ''dc'' @ String_of dcId @ ''_hash''"

section \<open>The session store\<close>

definition checkSessionLocked :: "env \<Rightarrow> storage \<Rightarrow> bool" where
  "checkSessionLocked E st = (getItem st (IS_SCREEN_LOCKED_CACHE_KEY E) = Some ''true'')"

text \<open>
  \<^verbatim>\<open>JSON.parse(localStorage.getItem(`${SESSION_ACCOUNT_PREFIX}${slot || 1}`) || '{}')\<close>,
  the first statement of \<^verbatim>\<open>loadSlotSession\<close>.
\<close>

definition slot_json :: "env \<Rightarrow> storage \<Rightarrow> int option \<Rightarrow> error + jsval" where
  "slot_json E st slot = JSON_parse E (getItem_or st (slot_key E slot) ''{}'')"

text \<open>
  \<^verbatim>\<open>loadSlotSession\<close>: the whole body is inside \<^verbatim>\<open>try\<close>, and both the \<^verbatim>\<open>SyntaxError\<close> of
  \<^verbatim>\<open>JSON.parse\<close> and the \<^verbatim>\<open>TypeError\<close> of \<^verbatim>\<open>data.dcId\<close> on \<^verbatim>\<open>null\<close> end in
  \<^verbatim>\<open>return undefined\<close>.
\<close>

definition loadSlotSession :: "env \<Rightarrow> storage \<Rightarrow> int option \<Rightarrow> jsval" where
  "loadSlotSession E st slot =
     (case slot_json E st slot of
        Inl e \<Rightarrow> JUndefined
      | Inr data \<Rightarrow>
          (case member data ''dcId'' of
             Inl e \<Rightarrow> JUndefined
           | Inr d \<Rightarrow> if \<not> truthy d then JUndefined else data))"

text \<open>
  \<^verbatim>\<open>Boolean(userAuth && userAuth.id && userAuth.dcID)\<close>; the member accesses are guarded
  by the truthiness of \<^verbatim>\<open>userAuth\<close>.
\<close>

definition legacy_user_ok :: "jsval \<Rightarrow> bool" where
  "legacy_user_ok userAuth =
     (truthy userAuth \<and> truthy (property userAuth ''id'') \<and> truthy (property userAuth ''dcID''))"

text \<open>
  The block of \<^verbatim>\<open>hasStoredSession\<close> under \<^verbatim>\<open>if (!ACCOUNT_SLOT)\<close>: the legacy user item,
  when there is a non-empty one, decides; a \<^verbatim>\<open>SyntaxError\<close> is caught and gives
  \<^verbatim>\<open>false\<close>.
\<close>

definition legacy_user_stored :: "env \<Rightarrow> storage \<Rightarrow> bool" where
  "legacy_user_stored E st =
     (case getItem st (SESSION_LEGACY_USER_KEY E) of
        None \<Rightarrow> False
      | Some legacyAuthJson \<Rightarrow>
          if legacyAuthJson = [] then False
          else (case JSON_parse E legacyAuthJson of
                  Inl err \<Rightarrow> False
                | Inr userAuth \<Rightarrow> legacy_user_ok userAuth))"

definition hasStoredSession :: "env \<Rightarrow> storage \<Rightarrow> bool" where
  "hasStoredSession E st =
     (if checkSessionLocked E st then True
      else
        let slotData = loadSlotSession E st (ACCOUNT_SLOT E) in
        if truthy slotData then truthy (property slotData ''dcId'')
        else if no_slot (ACCOUNT_SLOT E) then legacy_user_stored E st
        else False)"

text \<open>
  The value \<^verbatim>\<open>loadStoredSession\<close> returns and \<^verbatim>\<open>storeSession\<close> takes, an
  \<^verbatim>\<open>ApiSessionData\<close> object. \<^verbatim>\<open>keys\<close> is a record from data-center ids to auth keys,
  listed in the order \<^verbatim>\<open>Object.keys\<close> gives them. A property the object literal does
  not set is \<^verbatim>\<open>undefined\<close>.
\<close>

record ApiSessionData =
  mainDcId :: jsval
  keys :: "(int \<times> jsval) list"
  isTest :: jsval
  isLocalStorage :: jsval
  initConnectionParams :: jsval
  apiId :: jsval
  apiHash :: jsval

text \<open>\<^verbatim>\<open>keys[dcId]\<close>.\<close>

definition key_of :: "(int \<times> jsval) list \<Rightarrow> int \<Rightarrow> jsval" where
  "key_of ks dcId = (case map_of ks dcId of Some v \<Rightarrow> v | None \<Rightarrow> JUndefined)"

text \<open>\<^verbatim>\<open>v || undefined\<close>.\<close>

definition or_undefined :: "jsval \<Rightarrow> jsval" where
  "or_undefined v = (if truthy v then v else JUndefined)"

text \<open>
  The object literal at the end of \<^verbatim>\<open>loadStoredSession\<close>: \<^verbatim>\<open>mainDcId: slotData.dcId\<close>,
  the keys collected by \<^verbatim>\<open>DC_IDS.reduce\<close> (only truthy ones are set), and
  \<^verbatim>\<open>isTest: slotData.isTest || undefined\<close>.
\<close>

definition slot_keys_step :: "jsval \<Rightarrow> (int \<times> jsval) list \<Rightarrow> int \<Rightarrow> (int \<times> jsval) list" where
  "slot_keys_step slotData acc dcId =
     (let key = property slotData (auth_key_name dcId) in
      if truthy key then AList.update dcId key acc else acc)"

definition session_of_slot :: "env \<Rightarrow> jsval \<Rightarrow> ApiSessionData" where
  "session_of_slot E slotData =
     \<lparr> mainDcId = property slotData ''dcId'',
       keys = foldl (slot_keys_step slotData) [] (DC_IDS E),
       isTest = or_undefined (property slotData ''isTest''),
       isLocalStorage = JUndefined,
       initConnectionParams = JUndefined,
       apiId = JUndefined,
       apiHash = JUndefined \<rparr>"

text \<open>
  One round of \<^verbatim>\<open>DC_IDS.forEach\<close> in \<^verbatim>\<open>loadStoredLegacySession\<close>. The body is inside
  \<^verbatim>\<open>try\<close>: when \<^verbatim>\<open>JSON.parse(key)\<close> throws, the hash is not read; when \<^verbatim>\<open>JSON.parse(hash)\<close>
  throws, the key has been set already.
\<close>

definition legacy_keys_step ::
  "env \<Rightarrow> storage \<Rightarrow> (int \<times> jsval) list \<times> (int \<times> jsval) list \<Rightarrow> int
     \<Rightarrow> (int \<times> jsval) list \<times> (int \<times> jsval) list" where
  "legacy_keys_step E st acc dcId =
     (case (case getItem st (auth_key_name dcId) of
              None \<Rightarrow> Inr (fst acc)
            | Some key \<Rightarrow>
                (case JSON_parse E key of
                   Inl e \<Rightarrow> Inl e
                 | Inr v \<Rightarrow> Inr (AList.update dcId v (fst acc)))) of
        Inl e \<Rightarrow> acc
      | Inr ks \<Rightarrow>
          (case getItem st (hash_name dcId) of
             None \<Rightarrow> (ks, snd acc)
           | Some hash \<Rightarrow>
               (case JSON_parse E hash of
                  Inl e \<Rightarrow> (ks, snd acc)
                | Inr h \<Rightarrow> (ks, AList.update dcId h (snd acc)))))"

text \<open>
  The second \<^verbatim>\<open>try\<close> of \<^verbatim>\<open>loadStoredLegacySession\<close>: \<^verbatim>\<open>JSON.parse\<close> of the item
  \<^verbatim>\<open>user_entourage\<close> (of \<^verbatim>\<open>null\<close>, read as the text \<^verbatim>\<open>null\<close>, when there is none); an
  exception leaves the result as it is.
\<close>

definition with_entourage :: "env \<Rightarrow> storage \<Rightarrow> ApiSessionData \<Rightarrow> ApiSessionData" where
  "with_entourage E st result =
     (case JSON_parse E (case getItem st ''user_entourage'' of None \<Rightarrow> ''null'' | Some s \<Rightarrow> s) of
        Inl e \<Rightarrow> result
      | Inr entourage \<Rightarrow>
          if truthy (opt_member entourage ''apiId'') \<and> truthy (opt_member entourage ''apiHash'')
          then result\<lparr> initConnectionParams := (if truthy entourage then entourage else JObj []),
                       apiId := property entourage ''apiId'',
                       apiHash := property entourage ''apiHash'' \<rparr>
          else result)"

text \<open>
  \<^verbatim>\<open>loadStoredLegacySession\<close>. \<^verbatim>\<open>JSON.parse\<close> of the legacy user item is outside every
  \<^verbatim>\<open>try\<close>: its \<^verbatim>\<open>SyntaxError\<close> leaves the function. The hashes are collected and not
  returned.
\<close>

definition loadStoredLegacySession :: "env \<Rightarrow> storage \<Rightarrow> error + ApiSessionData option" where
  "loadStoredLegacySession E st =
     (if \<not> hasStoredSession E st then Inr None
      else
        case JSON_parse E (getItem_or st (SESSION_LEGACY_USER_KEY E) ''null'') of
          Inl e \<Rightarrow> Inl e
        | Inr userAuth \<Rightarrow>
            if \<not> truthy userAuth then Inr None
            else
              let ks = fst (foldl (legacy_keys_step E st) ([], []) (DC_IDS E)) in
              if ks = [] then Inr None
              else Inr (Some (with_entourage E st
                     \<lparr> mainDcId = Number_of E (property userAuth ''dcID''),
                       keys = ks,
                       isTest = property userAuth ''test'',
                       isLocalStorage = JBool False,
                       initConnectionParams = JUndefined,
                       apiId = JUndefined,
                       apiHash = JUndefined \<rparr>)))"

text \<open>
  \<^verbatim>\<open>loadStoredSession\<close>. Under \<^verbatim>\<open>DEBUG\<close> the second \<^verbatim>\<open>console.log\<close> reads the identifier
  \<^verbatim>\<open>SESSION_USER_KEY\<close>, which this module neither imports nor declares: a
  \<^verbatim>\<open>ReferenceError\<close>.
\<close>

definition loadStoredSession :: "env \<Rightarrow> storage \<Rightarrow> error + ApiSessionData option" where
  "loadStoredSession E st =
     (if DEBUG E then Inl ReferenceError
      else if \<not> hasStoredSession E st then Inr None
      else
        let slotData = loadSlotSession E st (ACCOUNT_SLOT E) in
        if \<not> truthy slotData then
          (if \<not> no_slot (ACCOUNT_SLOT E) then Inr None else loadStoredLegacySession E st)
        else Inr (Some (session_of_slot E slotData)))"

text \<open>\<^verbatim>\<open>String(v)\<close>, for \<^verbatim>\<open>localStorage.setItem('dc', String(mainDcId))\<close>.\<close>

fun String_js :: "jsval \<Rightarrow> string" and join_js :: "jsval list \<Rightarrow> string" where
  "String_js JUndefined = ''undefined''"
| "String_js JNull = ''null''"
| "String_js (JBool b) = (if b then ''true'' else ''false'')"
| "String_js (JNum n) = String_of n"
| "String_js JNaN = ''NaN''"
| "String_js (JStr s) = s"
| "String_js (JArr xs) = join_js xs"
| "String_js (JObj kvs) = ''[object Object]''"
| "join_js [] = []"
| "join_js (x # xs) =
     (if nullish x then [] else String_js x) @ (if xs = [] then [] else CHR '','' # join_js xs)"

text \<open>
  \<^verbatim>\<open>storeLegacySession\<close>: the legacy user item, \<^verbatim>\<open>dc\<close>, and one \<^verbatim>\<open>dcN_auth_key\<close> item for
  every key of \<^verbatim>\<open>keys\<close>.
\<close>

definition storeLegacySession :: "env \<Rightarrow> ApiSessionData \<Rightarrow> jsval \<Rightarrow> storage \<Rightarrow> storage" where
  "storeLegacySession E sessionData currentUserId st =
     (let st1 = setItem (SESSION_LEGACY_USER_KEY E)
                  (stringify E (JObj [(''dcID'', mainDcId sessionData),
                                      (''id'', currentUserId),
                                      (''test'', isTest sessionData)])) st;
          st2 = setItem ''dc'' (String_js (mainDcId sessionData)) st1
      in foldl (\<lambda>s dcId. setItem (auth_key_name dcId)
                            (stringify E (key_of (keys sessionData) dcId)) s)
           st2 (map fst (keys sessionData)))"

text \<open>
  Modelled from the spec: \<^verbatim>\<open>writeSlotSession\<close> of \<^verbatim>\<open>util/multiaccount\<close> is imported and
  not among the sources. The persistence surface holds, under the key of the slot, the
  slot data serialised as JSON; \<^verbatim>\<open>loadSlotSession\<close> reads that key back.
\<close>

definition writeSlotSession :: "env \<Rightarrow> int option \<Rightarrow> jsval \<Rightarrow> storage \<Rightarrow> storage" where
  "writeSlotSession E slot data st = setItem (slot_key E slot) (stringify E data) st"

text \<open>
  The object \<^verbatim>\<open>storeSession\<close> builds: \<^verbatim>\<open>{ ...currentSlotData, dcId: mainDcId, isTest }\<close>,
  then \<^verbatim>\<open>newSlotData[`dc${dcId}_auth_key`] = keys[dcId]\<close> for every key of \<^verbatim>\<open>keys\<close>.
\<close>

definition newSlotData :: "env \<Rightarrow> ApiSessionData \<Rightarrow> storage \<Rightarrow> (string \<times> jsval) list" where
  "newSlotData E sessionData st =
     (let currentSlotData = loadSlotSession E st (ACCOUNT_SLOT E) in
      foldl (\<lambda>obj dcId. AList.update (auth_key_name dcId) (key_of (keys sessionData) dcId) obj)
        (AList.update ''isTest'' (isTest sessionData)
           (AList.update ''dcId'' (mainDcId sessionData) (spread currentSlotData)))
        (map fst (keys sessionData)))"

definition storeSession :: "env \<Rightarrow> ApiSessionData \<Rightarrow> storage \<Rightarrow> storage" where
  "storeSession E sessionData st =
     (let currentSlotData = loadSlotSession E st (ACCOUNT_SLOT E);
          st1 = (if no_slot (ACCOUNT_SLOT E)
                 then storeLegacySession E sessionData (opt_member currentSlotData ''userId'') st
                 else st)
      in writeSlotSession E (ACCOUNT_SLOT E) (JObj (newSlotData E sessionData st)) st1)"



text \<open>
  The keys the module reads besides the key of a slot: the lock flag, the legacy user
  item, \<^verbatim>\<open>user_entourage\<close>, and the legacy key and hash items of the data centers.
\<close>

definition other_keys :: "env \<Rightarrow> string set" where
  "other_keys E =
     {IS_SCREEN_LOCKED_CACHE_KEY E, SESSION_LEGACY_USER_KEY E, ''user_entourage''}
       \<union> auth_key_name ` set (DC_IDS E) \<union> hash_name ` set (DC_IDS E)"

subsection \<open>Legacy items in the slotted shape\<close>

text \<open>
  The legacy auth key of a data center: the parsed item \<^verbatim>\<open>dcN_auth_key\<close>, when there is
  one and it parses.
\<close>

definition legacy_key :: "env \<Rightarrow> storage \<Rightarrow> int \<Rightarrow> jsval option" where
  "legacy_key E st dcId =
     (case getItem st (auth_key_name dcId) of
        None \<Rightarrow> None
      | Some key \<Rightarrow> (case JSON_parse E key of Inl e \<Rightarrow> None | Inr v \<Rightarrow> Some v))"

text \<open>
  Following the spec (``legacy single-account keys are read and translated into the
  slotted shape''): the slot data that holds the same logical data as the legacy items,
  \<^verbatim>\<open>dcId\<close>, \<^verbatim>\<open>userId\<close> and \<^verbatim>\<open>isTest\<close> from the legacy user item and every
  \<^verbatim>\<open>dcN_auth_key\<close> from the legacy item of that name. It is what the slotted path of
  \<^verbatim>\<open>loadStoredSession\<close> is compared on, not a function of the module.
\<close>

definition legacy_as_slot :: "env \<Rightarrow> storage \<Rightarrow> jsval" where
  "legacy_as_slot E st =
     (case JSON_parse E (getItem_or st (SESSION_LEGACY_USER_KEY E) ''null'') of
        Inl e \<Rightarrow> JUndefined
      | Inr userAuth \<Rightarrow>
          JObj (foldl (\<lambda>obj dcId. case legacy_key E st dcId of
                                     None \<Rightarrow> obj
                                   | Some v \<Rightarrow> AList.update (auth_key_name dcId) v obj)
                  [(''dcId'', property userAuth ''dcID''),
                   (''userId'', property userAuth ''id''),
                   (''isTest'', property userAuth ''test'')]
                  (DC_IDS E)))"

subsection \<open>A concrete environment\<close>

text \<open>
  For evaluating the module on concrete storages: the five data centers, the account
  slot unset, and the built-ins given on the texts and values of the examples, where
  they agree with \<^verbatim>\<open>JSON.parse\<close>, \<^verbatim>\<open>JSON.stringify\<close> and \<^verbatim>\<open>Number\<close>.
\<close>

definition example_parse :: "string \<Rightarrow> jsval option" where
  \<open>example_parse s =
     map_of
       [(''{"dcID":2,"id":"7"}'', JObj [(''dcID'', JNum 2), (''id'', JStr ''7'')]),
        (''{"dcID":2,"id":"7","test":false}'',
           JObj [(''dcID'', JNum 2), (''id'', JStr ''7''), (''test'', JBool False)]),
        (''{"dcId":2}'', JObj [(''dcId'', JNum 2)]),
        (''{"dcId":2,"userId":"7","dc4_auth_key":"k4"}'',
           JObj [(''dcId'', JNum 2), (''userId'', JStr ''7''), (''dc4_auth_key'', JStr ''k4'')]),
        (''{"dcId":2,"userId":"7","dc4_auth_key":"k4","dc2_auth_key":"k2"}'',
           JObj [(''dcId'', JNum 2), (''userId'', JStr ''7''), (''dc4_auth_key'', JStr ''k4''),
                 (''dc2_auth_key'', JStr ''k2'')]),
        (''{"dcId":2,"userId":"7","isTest":false,"dc2_auth_key":"k2"}'',
           JObj [(''dcId'', JNum 2), (''userId'', JStr ''7''), (''isTest'', JBool False),
                 (''dc2_auth_key'', JStr ''k2'')]),
        (''{"userId":"7"}'', JObj [(''userId'', JStr ''7'')]),
        (''"k2"'', JStr ''k2''),
        (''true'', JBool True)] s\<close>

definition example_stringify :: "jsval \<Rightarrow> string" where
  \<open>example_stringify v =
     (if v = JObj [(''dcId'', JNum 2), (''userId'', JStr ''7''), (''dc4_auth_key'', JStr ''k4''),
                   (''isTest'', JUndefined), (''dc2_auth_key'', JStr ''k2'')]
      then ''{"dcId":2,"userId":"7","dc4_auth_key":"k4","dc2_auth_key":"k2"}''
      else if v = JObj [(''dcId'', JNum 2), (''isTest'', JUndefined), (''dc2_auth_key'', JStr ''k2'')]
      then ''{"dcId":2,"dc2_auth_key":"k2"}''
      else if v = JObj [(''dcID'', JNum 2), (''id'', JUndefined), (''test'', JUndefined)]
      then ''{"dcID":2}''
      else if v = JObj [(''dcID'', JNum 2), (''id'', JStr ''7''), (''test'', JUndefined)]
      then ''{"dcID":2,"id":"7"}''
      else if v = JStr ''k2'' then ''"k2"''
      else ''null'')\<close>

definition example_number :: "jsval \<Rightarrow> jsval" where
  "example_number v =
     (case v of JNull \<Rightarrow> JNum 0 | JBool b \<Rightarrow> JNum (if b then 1 else 0) | _ \<Rightarrow> JNaN)"

definition example_env :: env where
  "example_env =
     \<lparr> parse_text = example_parse,
       stringify = example_stringify,
       to_number = example_number,
       ACCOUNT_SLOT = None,
       DEBUG = False,
       DC_IDS = [1, 2, 3, 4, 5],
       IS_SCREEN_LOCKED_CACHE_KEY = ''tt-is-screen-locked'',
       SESSION_ACCOUNT_PREFIX = ''account'',
       SESSION_LEGACY_USER_KEY = ''user_auth'' \<rparr>"

section \<open>Deleting the history of a topic\<close>

text \<open>
  \<^verbatim>\<open>deleteTopic\<close> (\<^verbatim>\<open>api/gramjs/methods/chats.ts\<close>) sends the same
  \<^verbatim>\<open>channels.DeleteTopicHistory\<close> request again while the result has a non-zero
  \<^verbatim>\<open>offset\<close>. The result of a request is a \<^verbatim>\<open>messages.AffectedHistory\<close>.
\<close>

record AffectedHistory =
  pts :: int
  ptsCount :: int
  offset :: int

text \<open>
  The server is what it answers: \<open>invokeRequest i\<close> is the result of the \<open>i\<close>-th request
  of the operation, \<open>None\<close> when \<^verbatim>\<open>invokeRequest\<close> resolves to \<^verbatim>\<open>undefined\<close>. The state
  is the number of requests sent and the list of results handed to
  \<^verbatim>\<open>processAffectedHistory\<close> (imported, not among the sources), in order. The recursion
  of the source has no bound, so the function is partial: \<open>None\<close> is a run that never
  returns.
\<close>

partial_function (option) deleteTopic ::
  "(nat \<Rightarrow> AffectedHistory option) \<Rightarrow> nat \<Rightarrow> AffectedHistory list
     \<Rightarrow> (nat \<times> AffectedHistory list) option" where
  "deleteTopic invokeRequest i processed =
     (case invokeRequest i of
        None \<Rightarrow> Some (Suc i, processed)
      | Some result \<Rightarrow>
          if offset result \<noteq> 0
          then deleteTopic invokeRequest (Suc i) (processed @ [result])
          else Some (Suc i, processed @ [result]))"

text \<open>The request after which the operation stops: no result, or a result with offset zero.\<close>

definition last_request :: "(nat \<Rightarrow> AffectedHistory option) \<Rightarrow> nat \<Rightarrow> bool" where
  "last_request invokeRequest n =
     (case invokeRequest n of None \<Rightarrow> True | Some result \<Rightarrow> offset result = 0)"

text \<open>
  The assumption on the server: after a result with a non-zero offset, the next result
  has a smaller offset that is not negative.
\<close>

definition offsets_decrease :: "(nat \<Rightarrow> AffectedHistory option) \<Rightarrow> bool" where
  "offsets_decrease invokeRequest =
     (\<forall>i r r'. invokeRequest i = Some r \<and> offset r \<noteq> 0 \<and> invokeRequest (Suc i) = Some r'
        \<longrightarrow> 0 \<le> offset r' \<and> offset r' < offset r)"

text \<open>Three results with the offsets 2, 1 and 0.\<close>

definition example_replies :: "nat \<Rightarrow> AffectedHistory option" where
  "example_replies i =
     (if i = 0 then Some \<lparr> pts = 10, ptsCount = 5, offset = 2 \<rparr>
      else if i = 1 then Some \<lparr> pts = 15, ptsCount = 5, offset = 1 \<rparr>
      else Some \<lparr> pts = 18, ptsCount = 3, offset = 0 \<rparr>)"

section \<open>Deduplicated full-chat requests\<close>

text \<open>
  \<^verbatim>\<open>fetchFullChat\<close> and the module-level map \<^verbatim>\<open>fullChatRequestDedupe\<close>. A promise is its
  number: the \<open>p\<close>-th call of \<^verbatim>\<open>getFullChannelInfo\<close> or \<^verbatim>\<open>getFullChatInfo\<close> (the underlying
  request) returns promise \<open>p\<close>, and \<open>started\<close> lists the chat ids of these calls in
  order. \<open>resolved\<close> holds the values of the promises that have settled.
\<close>

record 'v fetch_state =
  fullChatRequestDedupe :: "string \<rightharpoonup> nat"
  started :: "string list"
  resolved :: "nat \<rightharpoonup> 'v"

text \<open>
  One call of \<^verbatim>\<open>fetchFullChat\<close>: it has no \<^verbatim>\<open>await\<close>, so its body runs in one piece. It
  returns the promise of the map when there is one; otherwise it starts the underlying
  request and stores the new promise.
\<close>

definition fetchFullChat :: "string \<Rightarrow> 'v fetch_state \<Rightarrow> nat \<times> 'v fetch_state" where
  "fetchFullChat chatId st =
     (case fullChatRequestDedupe st chatId of
        Some promise \<Rightarrow> (promise, st)
      | None \<Rightarrow>
          let promise = length (started st) in
          (promise, st\<lparr> started := started st @ [chatId],
                         fullChatRequestDedupe := (fullChatRequestDedupe st)(chatId \<mapsto> promise) \<rparr>))"

text \<open>
  A pending promise settles with a value, and the callback given to
  \<^verbatim>\<open>promise.finally\<close>, the first reaction registered on the promise, deletes the chat
  id from the map. The two are taken as one step.
\<close>

definition settle :: "nat \<Rightarrow> 'v \<Rightarrow> 'v fetch_state \<Rightarrow> 'v fetch_state" where
  "settle promise v st =
     (if promise < length (started st) \<and> resolved st promise = None
      then st\<lparr> resolved := (resolved st)(promise \<mapsto> v),
                fullChatRequestDedupe := (fullChatRequestDedupe st)(started st ! promise := None) \<rparr>
      else st)"

text \<open>What happens between two calls: further calls, and promises that settle.\<close>

datatype 'v event = Call string | Settle nat 'v

fun run :: "'v event list \<Rightarrow> 'v fetch_state \<Rightarrow> 'v fetch_state" where
  "run [] st = st"
| "run (Call chatId # es) st = run es (snd (fetchFullChat chatId st))"
| "run (Settle promise v # es) st = run es (settle promise v st)"

text \<open>The state when the module has been loaded: \<^verbatim>\<open>new Map()\<close>, nothing requested.\<close>

definition module_loaded :: "'v fetch_state" where
  "module_loaded = \<lparr> fullChatRequestDedupe = Map.empty, started = [], resolved = Map.empty \<rparr>"

text \<open>
  The number of underlying requests started for a chat, the calls pending for a chat,
  and the invariant that ties the map to them.
\<close>

definition requests_for :: "string \<Rightarrow> 'v fetch_state \<Rightarrow> nat" where
  "requests_for chatId st = count_list (started st) chatId"

definition pending :: "'v fetch_state \<Rightarrow> string \<Rightarrow> nat \<Rightarrow> bool" where
  "pending st chatId p = (p < length (started st) \<and> started st ! p = chatId \<and> resolved st p = None)"

definition consistent :: "'v fetch_state \<Rightarrow> bool" where
  "consistent st =
     ((\<forall>chatId p. fullChatRequestDedupe st chatId = Some p \<longleftrightarrow> pending st chatId p)
      \<and> (\<forall>p. resolved st p \<noteq> None \<longrightarrow> p < length (started st)))"

section \<open>The update sequencer\<close>











section \<open>Evaluation on concrete storages\<close>

lemma example_env_simps:
  "parse_text example_env = example_parse"
  "stringify example_env = example_stringify"
  "to_number example_env = example_number"
  "ACCOUNT_SLOT example_env = None"
  "DEBUG example_env = False"
  "DC_IDS example_env = [1, 2, 3, 4, 5]"
  "IS_SCREEN_LOCKED_CACHE_KEY example_env = ''tt-is-screen-locked''"
  "SESSION_ACCOUNT_PREFIX example_env = ''account''"
  "SESSION_LEGACY_USER_KEY example_env = ''user_auth''"
  by (simp_all add: example_env_def)

lemma String_of_digits:
  "String_of 1 = ''1''" "String_of 2 = ''2''" "String_of 3 = ''3''" "String_of 4 = ''4''" "String_of 5 = ''5''"
  by (simp_all add: String_of_def string_of_nat.simps digit_def)

lemmas store_defs = getItem_def setItem_def removeItem_def getItem_or_def slot_key_def slot_or_1_def no_slot_def
lemmas example_defs = example_env_simps example_parse_def example_stringify_def example_number_def String_of_digits auth_key_name_def hash_name_def
lemmas session_defs = checkSessionLocked_def slot_json_def loadSlotSession_def member_def opt_member_def
  legacy_user_ok_def legacy_user_stored_def hasStoredSession_def JSON_parse_def Number_of_def

section \<open>The lock flag\<close>

text \<open>
  C4. Whenever the lock key holds the text \<^verbatim>\<open>true\<close>, \<^verbatim>\<open>hasStoredSession\<close> is true, for
  every content of the rest of the storage (absent, present or corrupt slot and legacy
  items), every account slot and every reading of JSON texts.
\<close>

theorem hasStoredSession_locked:
  assumes "getItem st (IS_SCREEN_LOCKED_CACHE_KEY E) = Some ''true''"
  shows "hasStoredSession E st"
  using assms by (simp add: hasStoredSession_def checkSessionLocked_def)

text \<open>The flag set beside a slot item that is not JSON.\<close>

theorem hasStoredSession_locked_witness:
  \<open>getItem [''tt-is-screen-locked'' \<mapsto> ''true'', ''account1'' \<mapsto> ''{"dcId":'']
      (IS_SCREEN_LOCKED_CACHE_KEY example_env) = Some ''true''
   \<and> hasStoredSession example_env [''tt-is-screen-locked'' \<mapsto> ''true'', ''account1'' \<mapsto> ''{"dcId":'']\<close>
proof -
  have h: \<open>getItem [''tt-is-screen-locked'' \<mapsto> ''true'', ''account1'' \<mapsto> ''{"dcId":'']
      (IS_SCREEN_LOCKED_CACHE_KEY example_env) = Some ''true''\<close>
    by (simp add: getItem_def example_env_simps)
  from hasStoredSession_locked [OF h] h show ?thesis by simp
qed

section \<open>Slots without a session\<close>

text \<open>
  C9. When the item of a slot parses and the parsed value has no \<^verbatim>\<open>dcId\<close>,
  \<^verbatim>\<open>loadSlotSession\<close> returns \<^verbatim>\<open>undefined\<close>; for the account slot, with the lock flag not
  set, \<^verbatim>\<open>hasStoredSession\<close> is then true only through the legacy fallback (no account
  slot and an accepted legacy user item), and false whenever that does not apply.
\<close>

theorem slot_without_dcId:
  assumes "slot_json E st slot = Inr data"
    and "property data ''dcId'' = JUndefined"
  shows "loadSlotSession E st slot = JUndefined
    \<and> (slot = ACCOUNT_SLOT E \<longrightarrow> \<not> checkSessionLocked E st \<longrightarrow>
          hasStoredSession E st = (no_slot slot \<and> legacy_user_stored E st))"
proof -
  have u: "loadSlotSession E st slot = JUndefined"
    using assms by (simp add: loadSlotSession_def member_def)
  then show ?thesis by (auto simp: hasStoredSession_def)
qed

theorem slot_without_dcId_witness:
  \<open>slot_json example_env [''account1'' \<mapsto> ''{"userId":"7"}''] None
      = Inr (JObj [(''userId'', JStr ''7'')])
   \<and> property (JObj [(''userId'', JStr ''7'')]) ''dcId'' = JUndefined
   \<and> loadSlotSession example_env [''account1'' \<mapsto> ''{"userId":"7"}''] None = JUndefined
   \<and> \<not> hasStoredSession example_env [''account1'' \<mapsto> ''{"userId":"7"}'']\<close>
proof -
  have a: \<open>slot_json example_env [''account1'' \<mapsto> ''{"userId":"7"}''] None
      = Inr (JObj [(''userId'', JStr ''7'')])\<close>
    by (simp add: slot_json_def JSON_parse_def store_defs example_defs)
  have b: "property (JObj [(''userId'', JStr ''7'')]) ''dcId'' = JUndefined" by simp
  have c: \<open>\<not> checkSessionLocked example_env [''account1'' \<mapsto> ''{"userId":"7"}'']\<close>
    by (simp add: checkSessionLocked_def store_defs example_defs)
  have d: \<open>\<not> legacy_user_stored example_env [''account1'' \<mapsto> ''{"userId":"7"}'']\<close>
    by (simp add: legacy_user_stored_def store_defs example_defs)
  from slot_without_dcId [OF a b] a c d show ?thesis
    by (simp add: example_defs)
qed

section \<open>Corrupt slot items\<close>

lemma absent_slot: "loadSlotSession E (removeItem (slot_key E slot) st) slot = JUndefined"
  by (simp add: removeItem_def loadSlotSession_def slot_json_def getItem_or_def getItem_def
        JSON_parse_def member_def)

lemma removeItem_other: "k' \<noteq> k \<Longrightarrow> getItem (removeItem k st) k' = getItem st k'"
  by (simp add: removeItem_def getItem_def)

lemma legacy_keys_step_removeItem:
  assumes "auth_key_name d \<noteq> k" and "hash_name d \<noteq> k"
  shows "legacy_keys_step E (removeItem k st) acc d = legacy_keys_step E st acc d"
  using assms by (simp add: legacy_keys_step_def removeItem_other cong: sum.case_cong option.case_cong)

lemma legacy_keys_fold_removeItem:
  assumes "k \<notin> auth_key_name ` set ds" and "k \<notin> hash_name ` set ds"
  shows "foldl (legacy_keys_step E (removeItem k st)) acc ds = foldl (legacy_keys_step E st) acc ds"
  using assms
proof (induction ds arbitrary: acc)
  case Nil
  show ?case by simp
next
  case (Cons d ds)
  then have "auth_key_name d \<noteq> k" and "hash_name d \<noteq> k" by auto
  then have "legacy_keys_step E (removeItem k st) acc d = legacy_keys_step E st acc d"
    by (rule legacy_keys_step_removeItem)
  with Cons show ?case by simp
qed

lemma reads_without_slot_item:
  assumes u: "loadSlotSession E st (ACCOUNT_SLOT E) = JUndefined"
    and k: "slot_key E (ACCOUNT_SLOT E) \<notin> other_keys E"
  shows "hasStoredSession E (removeItem (slot_key E (ACCOUNT_SLOT E)) st) = hasStoredSession E st"
    and "loadStoredSession E (removeItem (slot_key E (ACCOUNT_SLOT E)) st) = loadStoredSession E st"
proof -
  let ?k = "slot_key E (ACCOUNT_SLOT E)"
  let ?st = "removeItem ?k st"
  from k have k1: "IS_SCREEN_LOCKED_CACHE_KEY E \<noteq> ?k" and k2: "SESSION_LEGACY_USER_KEY E \<noteq> ?k"
    and k3: "''user_entourage'' \<noteq> ?k"
    and k4: "?k \<notin> auth_key_name ` set (DC_IDS E)" and k5: "?k \<notin> hash_name ` set (DC_IDS E)"
    by (auto simp: other_keys_def)
  have l: "checkSessionLocked E ?st = checkSessionLocked E st"
    by (simp add: checkSessionLocked_def removeItem_other [OF k1])
  have g: "legacy_user_stored E ?st = legacy_user_stored E st"
    by (simp add: legacy_user_stored_def removeItem_other [OF k2])
  show h: "hasStoredSession E ?st = hasStoredSession E st"
    by (simp add: hasStoredSession_def l g u absent_slot)
  have e: "with_entourage E ?st r = with_entourage E st r" for r
    by (simp add: with_entourage_def removeItem_other [OF k3])
  have f: "foldl (legacy_keys_step E ?st) acc (DC_IDS E) = foldl (legacy_keys_step E st) acc (DC_IDS E)"
    for acc using k4 k5 by (rule legacy_keys_fold_removeItem)
  have p: "getItem_or ?st (SESSION_LEGACY_USER_KEY E) d = getItem_or st (SESSION_LEGACY_USER_KEY E) d"
    for d by (simp add: getItem_or_def removeItem_other [OF k2])
  have "loadStoredLegacySession E ?st = loadStoredLegacySession E st"
    by (simp add: loadStoredLegacySession_def h e f p cong: sum.case_cong if_cong)
  then show "loadStoredSession E ?st = loadStoredSession E st"
    by (simp add: loadStoredSession_def h u absent_slot)
qed

text \<open>
  C5, as the code has it. When the item of a slot is not JSON, \<^verbatim>\<open>loadSlotSession\<close>
  returns \<^verbatim>\<open>undefined\<close> and throws nothing. For the account slot, \<^verbatim>\<open>hasStoredSession\<close>
  and \<^verbatim>\<open>loadStoredSession\<close> then give what they give when the item is absent (the key of
  the slot being none of the other keys the module reads). Outside \<^verbatim>\<open>DEBUG\<close>,
  \<^verbatim>\<open>loadStoredSession\<close> returns \<^verbatim>\<open>undefined\<close> when an account slot is set; with no account
  slot it returns what the legacy loader returns.
\<close>

theorem corrupt_slot:
  assumes "getItem st (slot_key E slot) = Some s"
    and "JSON_parse E s = Inl e"
  shows "loadSlotSession E st slot = JUndefined
    \<and> (slot = ACCOUNT_SLOT E \<longrightarrow>
          (slot_key E slot \<notin> other_keys E \<longrightarrow>
             hasStoredSession E st = hasStoredSession E (removeItem (slot_key E slot) st)
           \<and> loadStoredSession E st = loadStoredSession E (removeItem (slot_key E slot) st))
        \<and> (\<not> DEBUG E \<longrightarrow>
             (\<not> no_slot slot \<longrightarrow> loadStoredSession E st = Inr None)
           \<and> (no_slot slot \<longrightarrow> loadStoredSession E st = loadStoredLegacySession E st)))"
proof -
  have u: "loadSlotSession E st slot = JUndefined"
  proof (cases "s = []")
    case True
    with assms(1) show ?thesis
      by (simp add: loadSlotSession_def slot_json_def getItem_or_def JSON_parse_def member_def)
  next
    case False
    with assms show ?thesis
      by (simp add: loadSlotSession_def slot_json_def getItem_or_def)
  qed
  have l: "\<not> hasStoredSession E st \<Longrightarrow> loadStoredLegacySession E st = Inr None"
    by (simp add: loadStoredLegacySession_def)
  have a: "slot = ACCOUNT_SLOT E \<Longrightarrow> slot_key E slot \<notin> other_keys E \<Longrightarrow>
             hasStoredSession E st = hasStoredSession E (removeItem (slot_key E slot) st)
           \<and> loadStoredSession E st = loadStoredSession E (removeItem (slot_key E slot) st)"
    using u reads_without_slot_item [of E st] by simp
  have b: "slot = ACCOUNT_SLOT E \<Longrightarrow> \<not> DEBUG E \<Longrightarrow>
             (\<not> no_slot slot \<longrightarrow> loadStoredSession E st = Inr None)
           \<and> (no_slot slot \<longrightarrow> loadStoredSession E st = loadStoredLegacySession E st)"
    using u l by (auto simp: loadStoredSession_def)
  from u a b show ?thesis by blast
qed

theorem corrupt_slot_witness:
  \<open>getItem [''account1'' \<mapsto> ''{"dcId":''] (slot_key example_env None) = Some ''{"dcId":''
   \<and> JSON_parse example_env ''{"dcId":'' = Inl SyntaxError
   \<and> None = ACCOUNT_SLOT example_env
   \<and> slot_key example_env None \<notin> other_keys example_env
   \<and> \<not> DEBUG example_env \<and> no_slot None
   \<and> loadSlotSession example_env [''account1'' \<mapsto> ''{"dcId":''] None = JUndefined
   \<and> loadStoredSession example_env [''account1'' \<mapsto> ''{"dcId":'']
       = loadStoredSession example_env
           (removeItem (slot_key example_env None) [''account1'' \<mapsto> ''{"dcId":''])
   \<and> loadStoredSession example_env [''account1'' \<mapsto> ''{"dcId":'']
       = loadStoredLegacySession example_env [''account1'' \<mapsto> ''{"dcId":'']\<close>
proof -
  have a: \<open>getItem [''account1'' \<mapsto> ''{"dcId":''] (slot_key example_env None) = Some ''{"dcId":''\<close>
    by (simp add: store_defs example_defs)
  have b: \<open>JSON_parse example_env ''{"dcId":'' = Inl SyntaxError\<close>
    by (simp add: JSON_parse_def example_defs)
  have c: "None = ACCOUNT_SLOT example_env" "\<not> DEBUG example_env" "no_slot None"
    by (simp_all add: no_slot_def example_defs)
  have d: "slot_key example_env None \<notin> other_keys example_env"
    by (simp add: other_keys_def store_defs example_defs)
  from corrupt_slot [OF a b] a b c d show ?thesis by blast
qed

text \<open>
  With no account slot set \<^verbatim>\<open>loadStoredSession\<close> need not return \<^verbatim>\<open>undefined\<close>: beside a
  slot item that is not JSON, an accepted legacy user item and a legacy auth key make it
  return a session.
\<close>

theorem corrupt_slot_counterexample:
  \<open>getItem [''account1'' \<mapsto> ''{"dcId":'', ''user_auth'' \<mapsto> ''{"dcID":2,"id":"7"}'',
             ''dc2_auth_key'' \<mapsto> ''"k2"''] (slot_key example_env (ACCOUNT_SLOT example_env))
      = Some ''{"dcId":''
   \<and> JSON_parse example_env ''{"dcId":'' = Inl SyntaxError
   \<and> loadStoredSession example_env
        [''account1'' \<mapsto> ''{"dcId":'', ''user_auth'' \<mapsto> ''{"dcID":2,"id":"7"}'',
         ''dc2_auth_key'' \<mapsto> ''"k2"'']
      = Inr (Some \<lparr> mainDcId = JNum 2, keys = [(2, JStr ''k2'')], isTest = JUndefined,
                     isLocalStorage = JBool False, initConnectionParams = JUndefined,
                     apiId = JUndefined, apiHash = JUndefined \<rparr>)\<close>
  by (simp add: store_defs example_defs session_defs loadStoredSession_def
        loadStoredLegacySession_def legacy_keys_step_def with_entourage_def)

section \<open>What a save writes\<close>











section \<open>Clearing a slot\<close>




section \<open>What a save keeps\<close>

lemma digit_code: "d < 10 \<Longrightarrow> of_char (digit d) = (48 + d :: nat)"
proof -
  assume "d < 10"
  then have "d \<in> {0,1,2,3,4,5,6,7,8,9}" by auto
  then show ?thesis by (auto simp: digit_def)
qed

lemma digit_inj:
  assumes "d < 10" and "e < 10" and "digit d = digit e"
  shows "d = e"
proof -
  have "(48 + d :: nat) = of_char (digit d)" using assms(1) by (simp only: digit_code)
  also have "\<dots> = of_char (digit e)" by (simp only: assms(3))
  also have "\<dots> = 48 + e" using assms(2) by (simp only: digit_code)
  finally show ?thesis by simp
qed

lemma digit_not_minus: "d < 10 \<Longrightarrow> digit d \<noteq> CHR ''-''"
proof
  assume "d < 10" and "digit d = CHR ''-''"
  then have "(48 + d :: nat) = of_char (CHR ''-'')" using digit_code [of d] by (simp only:)
  then show False by simp
qed

lemma string_of_nat_nonempty: "string_of_nat n \<noteq> []"
  by (subst string_of_nat.simps) simp

lemma string_of_nat_hd: "hd (string_of_nat n) \<noteq> CHR ''-''"
proof (induction n rule: string_of_nat.induct)
  case (1 n)
  show ?case
  proof (cases "n < 10")
    case True
    then show ?thesis by (subst string_of_nat.simps) (simp add: digit_not_minus)
  next
    case False
    then show ?thesis
      using 1 string_of_nat_nonempty [of "n div 10"]
      by (subst string_of_nat.simps) simp
  qed
qed

lemma string_of_nat_inj: "string_of_nat n = string_of_nat m \<Longrightarrow> n = m"
proof (induction n arbitrary: m rule: string_of_nat.induct)
  case (1 n)
  show ?case
  proof (cases "n < 10")
    case n: True
    show ?thesis
    proof (cases "m < 10")
      case True
      with n "1.prems" show ?thesis
        by (simp add: string_of_nat.simps [of n] string_of_nat.simps [of m] digit_inj)
    next
      case False
      with n "1.prems" string_of_nat_nonempty [of "m div 10"] show ?thesis
        by (simp add: string_of_nat.simps [of n] string_of_nat.simps [of m])
    qed
  next
    case n: False
    show ?thesis
    proof (cases "m < 10")
      case True
      with n "1.prems" string_of_nat_nonempty [of "n div 10"] show ?thesis
        by (simp add: string_of_nat.simps [of n] string_of_nat.simps [of m])
    next
      case False
      with n "1.prems" have e: "string_of_nat (n div 10) = string_of_nat (m div 10)"
        and d: "digit (n mod 10) = digit (m mod 10)"
        by (simp_all add: string_of_nat.simps [of n] string_of_nat.simps [of m])
      from "1.IH" [OF n e] have "n div 10 = m div 10" .
      moreover from d have "n mod 10 = m mod 10" by (simp add: digit_inj)
      ultimately show ?thesis by (metis div_mult_mod_eq)
    qed
  qed
qed

lemma String_of_inj: "String_of i = String_of j \<Longrightarrow> i = j"
proof -
  assume a: "String_of i = String_of j"
  have h: "CHR ''-'' # string_of_nat a \<noteq> string_of_nat b" for a b
    using string_of_nat_hd [of b] by (metis list.sel(1))
  show ?thesis
  proof (cases "i < 0")
    case i: True
    show ?thesis
    proof (cases "j < 0")
      case True
      with i a have "string_of_nat (nat (- i)) = string_of_nat (nat (- j))"
        by (simp add: String_of_def)
      then have "nat (- i) = nat (- j)" by (rule string_of_nat_inj)
      with i True show ?thesis by simp
    next
      case False
      with i a h show ?thesis by (simp add: String_of_def)
    qed
  next
    case i: False
    show ?thesis
    proof (cases "j < 0")
      case True
      with i a h [of "nat (- j)" "nat i"] show ?thesis by (simp add: String_of_def)
    next
      case False
      with i a have "string_of_nat (nat i) = string_of_nat (nat j)"
        by (simp add: String_of_def)
      then have "nat i = nat j" by (rule string_of_nat_inj)
      with i False show ?thesis by simp
    qed
  qed
qed

lemma auth_key_name_inj: "auth_key_name d = auth_key_name e \<Longrightarrow> d = e"
  by (simp add: auth_key_name_def String_of_inj)

lemma auth_key_name_fresh:
  "auth_key_name d \<noteq> ''userId''" "auth_key_name d \<noteq> ''isTest''" "auth_key_name d \<noteq> ''dcId''"
proof -
  show "auth_key_name d \<noteq> ''userId''" "auth_key_name d \<noteq> ''isTest''"
    by (simp_all add: auth_key_name_def)
  show "auth_key_name d \<noteq> ''dcId''"
  proof
    assume "auth_key_name d = ''dcId''"
    then have "length (auth_key_name d) = length ''dcId''" by simp
    then show False by (simp add: auth_key_name_def)
  qed
qed

lemma map_of_foldl_update_other:
  "k \<notin> f ` set ds \<Longrightarrow>
     map_of (foldl (\<lambda>obj d. AList.update (f d) (g d) obj) obj0 ds) k = map_of obj0 k"
  by (induction ds arbitrary: obj0) (auto simp: update_conv')

lemma map_of_foldl_update_in:
  assumes "\<And>d e. f d = f e \<Longrightarrow> d = e" and "d \<in> set ds"
  shows "map_of (foldl (\<lambda>obj d. AList.update (f d) (g d) obj) obj0 ds) (f d) = Some (g d)"
  using assms(2)
proof (induction ds arbitrary: obj0 rule: rev_induct)
  case Nil
  then show ?case by simp
next
  case (snoc x xs)
  then show ?case using assms(1) by (auto simp: update_conv')
qed

lemma loadSlotSession_shape:
  "loadSlotSession E st slot = JUndefined \<or> (\<exists>kvs. loadSlotSession E st slot = JObj kvs)"
proof -
  have "truthy (property v ''dcId'') \<Longrightarrow> \<exists>kvs. v = JObj kvs" for v
    by (cases v) simp_all
  then show ?thesis
    by (auto simp: loadSlotSession_def member_def split: sum.splits)
qed

lemma property_spread:
  "v = JUndefined \<or> (\<exists>kvs. v = JObj kvs) \<Longrightarrow>
     (case map_of (spread v) p of Some x \<Rightarrow> x | None \<Rightarrow> JUndefined) = property v p"
  by auto


lemma property_newSlotData:
  "property (JObj (newSlotData E sd st)) p =
     (if p \<in> auth_key_name ` fst ` set (keys sd)
      then key_of (keys sd) (THE d. auth_key_name d = p)
      else if p = ''isTest'' then isTest sd
      else if p = ''dcId'' then mainDcId sd
      else property (loadSlotSession E st (ACCOUNT_SLOT E)) p)"
proof (cases "p \<in> auth_key_name ` fst ` set (keys sd)")
  case True
  then obtain d where d: "d \<in> set (map fst (keys sd))" and p: "p = auth_key_name d" by auto
  have "(THE e. auth_key_name e = auth_key_name d) = d"
    using auth_key_name_inj by blast
  with True d p show ?thesis
    by (simp add: newSlotData_def Let_def
          map_of_foldl_update_in [where f = auth_key_name, OF auth_key_name_inj])
next
  case False
  then have "p \<notin> auth_key_name ` set (map fst (keys sd))" by simp
  with False show ?thesis
    using property_spread [OF loadSlotSession_shape, of E st "ACCOUNT_SLOT E" p]
    by (simp add: newSlotData_def Let_def map_of_foldl_update_other update_conv')
qed

text \<open>
  C10. Let \<open>cur\<close> be the slot data \<^verbatim>\<open>storeSession\<close> finds. Provided the JSON text of the
  new slot data is not empty and reads back as a value with the same properties, the
  item of the slot holds after the save: the \<^verbatim>\<open>userId\<close> of \<open>cur\<close>, the
  \<^verbatim>\<open>dcN_auth_key\<close> of \<open>cur\<close> for every data center that is not a key of the incoming
  \<^verbatim>\<open>keys\<close>, and the incoming \<^verbatim>\<open>mainDcId\<close>, \<^verbatim>\<open>isTest\<close> and \<^verbatim>\<open>keys\<close>.
\<close>

theorem storeSession_preserves:
  assumes "cur = loadSlotSession E st (ACCOUNT_SLOT E)"
    and "stringify E (JObj (newSlotData E sd st)) \<noteq> []"
    and "JSON_parse E (stringify E (JObj (newSlotData E sd st))) = Inr stored"
    and "\<forall>p. property stored p = property (JObj (newSlotData E sd st)) p"
  shows "slot_json E (storeSession E sd st) (ACCOUNT_SLOT E) = Inr stored
    \<and> property stored ''userId'' = property cur ''userId''
    \<and> (\<forall>d. d \<notin> fst ` set (keys sd) \<longrightarrow>
          property stored (auth_key_name d) = property cur (auth_key_name d))
    \<and> property stored ''dcId'' = mainDcId sd
    \<and> property stored ''isTest'' = isTest sd
    \<and> (\<forall>d \<in> fst ` set (keys sd). property stored (auth_key_name d) = key_of (keys sd) d)"
proof -
  have w: "getItem (storeSession E sd st) (slot_key E (ACCOUNT_SLOT E))
             = Some (stringify E (JObj (newSlotData E sd st)))"
    by (simp add: storeSession_def Let_def writeSlotSession_def getItem_def setItem_def)
  have j: "slot_json E (storeSession E sd st) (ACCOUNT_SLOT E) = Inr stored"
    using assms(2,3) by (simp add: slot_json_def getItem_or_def w)
  have the: "(THE e. auth_key_name e = auth_key_name d) = d" for d
    using auth_key_name_inj by blast
  have nin: "d \<notin> fst ` set (keys sd) \<Longrightarrow> auth_key_name d \<notin> auth_key_name ` fst ` set (keys sd)" for d
    using auth_key_name_inj by blast
  have fr: "''userId'' \<notin> auth_key_name ` X" "''isTest'' \<notin> auth_key_name ` X"
    "''dcId'' \<notin> auth_key_name ` X" for X
    using auth_key_name_fresh by (metis imageE)+
  have u: "property stored ''userId'' = property cur ''userId''"
    by (simp add: assms(1,4) property_newSlotData fr del: property.simps)
  have o: "d \<notin> fst ` set (keys sd) \<Longrightarrow>
             property stored (auth_key_name d) = property cur (auth_key_name d)" for d
    using nin [of d]
    by (simp add: assms(1,4) property_newSlotData auth_key_name_fresh del: property.simps)
  have dc: "property stored ''dcId'' = mainDcId sd"
    by (simp add: assms(4) property_newSlotData fr del: property.simps)
  have t: "property stored ''isTest'' = isTest sd"
    by (simp add: assms(4) property_newSlotData fr del: property.simps)
  have k: "d \<in> fst ` set (keys sd) \<Longrightarrow> property stored (auth_key_name d) = key_of (keys sd) d" for d
    by (simp add: assms(4) property_newSlotData the del: property.simps)
  show ?thesis using j u o dc t k by blast
qed

theorem storeSession_preserves_witness:
  \<open>stringify example_env (JObj (newSlotData example_env
        \<lparr> mainDcId = JNum 2, keys = [(2, JStr ''k2'')], isTest = JUndefined,
          isLocalStorage = JUndefined, initConnectionParams = JUndefined,
          apiId = JUndefined, apiHash = JUndefined \<rparr>
        [''account1'' \<mapsto> ''{"dcId":2,"userId":"7","dc4_auth_key":"k4"}''])) \<noteq> []
   \<and> slot_json example_env (storeSession example_env
        \<lparr> mainDcId = JNum 2, keys = [(2, JStr ''k2'')], isTest = JUndefined,
          isLocalStorage = JUndefined, initConnectionParams = JUndefined,
          apiId = JUndefined, apiHash = JUndefined \<rparr>
        [''account1'' \<mapsto> ''{"dcId":2,"userId":"7","dc4_auth_key":"k4"}''])
        (ACCOUNT_SLOT example_env)
       = Inr (JObj [(''dcId'', JNum 2), (''userId'', JStr ''7''), (''dc4_auth_key'', JStr ''k4''),
                    (''dc2_auth_key'', JStr ''k2'')])
   \<and> property (JObj [(''dcId'', JNum 2), (''userId'', JStr ''7''), (''dc4_auth_key'', JStr ''k4''),
                      (''dc2_auth_key'', JStr ''k2'')]) ''userId''
       = property (loadSlotSession example_env
            [''account1'' \<mapsto> ''{"dcId":2,"userId":"7","dc4_auth_key":"k4"}'']
            (ACCOUNT_SLOT example_env)) ''userId''
   \<and> property (JObj [(''dcId'', JNum 2), (''userId'', JStr ''7''), (''dc4_auth_key'', JStr ''k4''),
                      (''dc2_auth_key'', JStr ''k2'')]) (auth_key_name 4)
       = property (loadSlotSession example_env
            [''account1'' \<mapsto> ''{"dcId":2,"userId":"7","dc4_auth_key":"k4"}'']
            (ACCOUNT_SLOT example_env)) (auth_key_name 4)\<close>
proof -
  let ?sd = "\<lparr> mainDcId = JNum 2, keys = [(2, JStr ''k2'')], isTest = JUndefined,
          isLocalStorage = JUndefined, initConnectionParams = JUndefined,
          apiId = JUndefined, apiHash = JUndefined \<rparr>"
  let ?st = \<open>[''account1'' \<mapsto> ''{"dcId":2,"userId":"7","dc4_auth_key":"k4"}'']\<close>
  let ?stored = "JObj [(''dcId'', JNum 2), (''userId'', JStr ''7''), (''dc4_auth_key'', JStr ''k4''),
                    (''dc2_auth_key'', JStr ''k2'')]"
  have n: "newSlotData example_env ?sd ?st
      = [(''dcId'', JNum 2), (''userId'', JStr ''7''), (''dc4_auth_key'', JStr ''k4''),
         (''isTest'', JUndefined), (''dc2_auth_key'', JStr ''k2'')]"
    by (simp add: newSlotData_def key_of_def store_defs example_defs session_defs)
  have a: "stringify example_env (JObj (newSlotData example_env ?sd ?st)) \<noteq> []"
    by (simp add: n example_defs)
  have b: "JSON_parse example_env (stringify example_env (JObj (newSlotData example_env ?sd ?st)))
      = Inr ?stored"
    by (simp add: n JSON_parse_def example_defs)
  have c: "\<forall>p. property ?stored p = property (JObj (newSlotData example_env ?sd ?st)) p"
    by (simp add: n)
  have d: "4 \<notin> fst ` set (keys ?sd)" by simp
  from storeSession_preserves [OF refl a b c] a d show ?thesis by blast
qed

section \<open>The legacy path and the slotted path\<close>

lemma map_of_foldl_cond_update:
  assumes "\<And>d e. f d = f e \<Longrightarrow> d = e"
  shows "map_of (foldl (\<lambda>acc d. case g d of None \<Rightarrow> acc | Some v \<Rightarrow> AList.update (f d) v acc)
            acc0 ds) (f k)
         = (if k \<in> set ds \<and> g k \<noteq> None then g k else map_of acc0 (f k))"
proof (induction ds rule: rev_induct)
  case Nil
  show ?case by simp
next
  case (snoc x xs)
  have eq: "f a = f b \<longleftrightarrow> a = b" for a b using assms by auto
  show ?case
  proof (cases "g x")
    case None
    with snoc show ?thesis by auto
  next
    case (Some v)
    with snoc show ?thesis by (auto simp: update_conv' eq)
  qed
qed

lemma map_of_foldl_cond_update_other:
  "k \<notin> f ` set ds \<Longrightarrow>
     map_of (foldl (\<lambda>acc d. case g d of None \<Rightarrow> acc | Some v \<Rightarrow> AList.update (f d) v acc)
            acc0 ds) k = map_of acc0 k"
  by (induction ds arbitrary: acc0) (auto simp: update_conv' split: option.splits)

lemma legacy_keys_step_fst:
  "fst (legacy_keys_step E st acc d) =
     (case legacy_key E st d of None \<Rightarrow> fst acc | Some v \<Rightarrow> AList.update d v (fst acc))"
  by (simp add: legacy_keys_step_def legacy_key_def split: option.splits sum.splits)

lemma legacy_keys_fold_fst:
  "fst (foldl (legacy_keys_step E st) acc ds) =
     foldl (\<lambda>ks d. case legacy_key E st d of None \<Rightarrow> ks | Some v \<Rightarrow> AList.update d v ks)
       (fst acc) ds"
  by (induction ds arbitrary: acc) (simp_all add: legacy_keys_step_fst)

lemma legacy_keys_lookup:
  "key_of (fst (foldl (legacy_keys_step E st) ([], []) ds)) d =
     (if d \<in> set ds then (case legacy_key E st d of None \<Rightarrow> JUndefined | Some v \<Rightarrow> v)
      else JUndefined)"
  using map_of_foldl_cond_update [where f = "\<lambda>d. d" and g = "legacy_key E st" and ?acc0.0 = "[]"
      and ds = ds and k = d]
  by (auto simp: key_of_def legacy_keys_fold_fst)

lemma legacy_keys_nonempty:
  assumes "d \<in> set ds" and "legacy_key E st d \<noteq> None"
  shows "fst (foldl (legacy_keys_step E st) ([], []) ds) \<noteq> []"
proof
  assume "fst (foldl (legacy_keys_step E st) ([], []) ds) = []"
  then have "map_of (fst (foldl (legacy_keys_step E st) ([], []) ds)) d = None" by simp
  moreover have "map_of (fst (foldl (legacy_keys_step E st) ([], []) ds)) d = legacy_key E st d"
    using assms map_of_foldl_cond_update [where f = "\<lambda>d. d" and g = "legacy_key E st"
        and ?acc0.0 = "[]" and ds = ds and k = d]
    by (simp add: legacy_keys_fold_fst)
  ultimately show False using assms(2) by simp
qed

lemma slot_keys_fold:
  "foldl (slot_keys_step slotData) acc ds =
     foldl (\<lambda>ks d. case (if truthy (property slotData (auth_key_name d))
                          then Some (property slotData (auth_key_name d)) else None) of
                     None \<Rightarrow> ks | Some v \<Rightarrow> AList.update d v ks) acc ds"
  by (induction ds arbitrary: acc) (simp_all add: slot_keys_step_def Let_def)

lemma slot_keys_lookup:
  "key_of (foldl (slot_keys_step slotData) [] ds) d =
     (if d \<in> set ds then or_undefined (property slotData (auth_key_name d)) else JUndefined)"
  using map_of_foldl_cond_update [where f = "\<lambda>d. d"
      and g = "\<lambda>d. if truthy (property slotData (auth_key_name d))
                    then Some (property slotData (auth_key_name d)) else None"
      and ?acc0.0 = "[]" and ds = ds and k = d]
  by (auto simp: key_of_def slot_keys_fold or_undefined_def)

lemma with_entourage_fields:
  "mainDcId (with_entourage E st r) = mainDcId r"
  "keys (with_entourage E st r) = keys r"
  "isTest (with_entourage E st r) = isTest r"
  by (simp_all add: with_entourage_def split: sum.splits)

lemma legacy_as_slot_property:
  assumes "JSON_parse E (getItem_or st (SESSION_LEGACY_USER_KEY E) ''null'') = Inr userAuth"
  shows "property (legacy_as_slot E st) ''dcId'' = property userAuth ''dcID''"
    and "property (legacy_as_slot E st) ''isTest'' = property userAuth ''test''"
    and "property (legacy_as_slot E st) (auth_key_name d) =
          (if d \<in> set (DC_IDS E) then (case legacy_key E st d of None \<Rightarrow> JUndefined | Some v \<Rightarrow> v)
           else JUndefined)"
proof -
  have fr: "''dcId'' \<notin> auth_key_name ` X" "''isTest'' \<notin> auth_key_name ` X" for X
    using auth_key_name_fresh by (metis imageE)+
  show "property (legacy_as_slot E st) ''dcId'' = property userAuth ''dcID''"
    by (simp add: legacy_as_slot_def assms map_of_foldl_cond_update_other fr)
  show "property (legacy_as_slot E st) ''isTest'' = property userAuth ''test''"
    by (simp add: legacy_as_slot_def assms map_of_foldl_cond_update_other fr)
  show "property (legacy_as_slot E st) (auth_key_name d) =
          (if d \<in> set (DC_IDS E) then (case legacy_key E st d of None \<Rightarrow> JUndefined | Some v \<Rightarrow> v)
           else JUndefined)"
    using auth_key_name_fresh [of d]
    by (auto simp: legacy_as_slot_def assms
          map_of_foldl_cond_update [where f = auth_key_name, OF auth_key_name_inj])
qed


lemma legacy_user_stored_parse:
  assumes "legacy_user_stored E st"
  obtains userAuth where
    "JSON_parse E (getItem_or st (SESSION_LEGACY_USER_KEY E) ''null'') = Inr userAuth"
    and "legacy_user_ok userAuth"
  using assms
  by (auto simp: legacy_user_stored_def getItem_or_def split: option.splits if_splits sum.splits)

text \<open>
  C6, as the code has it. With no slotted data, no account slot, an accepted legacy user
  item and at least one legacy auth key that parses, \<^verbatim>\<open>loadStoredSession\<close> (outside
  \<^verbatim>\<open>DEBUG\<close>) returns a session \<open>s\<close> through the legacy path. Against the session the
  slotted path makes of the same data: \<^verbatim>\<open>mainDcId\<close> of \<open>s\<close> is \<^verbatim>\<open>Number\<close> of the slotted
  one (the same value when that is a number); every key and \<^verbatim>\<open>isTest\<close> of the slotted
  session are those of \<open>s\<close> passed through \<^verbatim>\<open>|| undefined\<close>, so they are the same when
  truthy, and a falsy one is kept by the legacy path and dropped by the slotted path.
  The load functions take the storage and return a value only: a second load of the same
  stored state is the same function of the same argument.
\<close>

theorem legacy_load_refines:
  assumes "\<not> DEBUG E" and "no_slot (ACCOUNT_SLOT E)"
    and "loadSlotSession E st (ACCOUNT_SLOT E) = JUndefined"
    and "legacy_user_stored E st"
    and "d0 \<in> set (DC_IDS E)" and "legacy_key E st d0 \<noteq> None"
  shows "\<exists>s. loadStoredSession E st = Inr (Some s)
    \<and> mainDcId s = Number_of E (mainDcId (session_of_slot E (legacy_as_slot E st)))
    \<and> (\<forall>n. mainDcId (session_of_slot E (legacy_as_slot E st)) = JNum n \<longrightarrow> mainDcId s = JNum n)
    \<and> (\<forall>d. key_of (keys (session_of_slot E (legacy_as_slot E st))) d
            = or_undefined (key_of (keys s) d))
    \<and> isTest (session_of_slot E (legacy_as_slot E st)) = or_undefined (isTest s)"
proof -
  from assms(4) obtain userAuth where
    pu: "JSON_parse E (getItem_or st (SESSION_LEGACY_USER_KEY E) ''null'') = Inr userAuth"
    and ok: "legacy_user_ok userAuth"
    by (rule legacy_user_stored_parse)
  have tu: "truthy userAuth" using ok by (simp add: legacy_user_ok_def)
  let ?ks = "fst (foldl (legacy_keys_step E st) ([], []) (DC_IDS E))"
  let ?r = "\<lparr> mainDcId = Number_of E (property userAuth ''dcID''), keys = ?ks,
              isTest = property userAuth ''test'', isLocalStorage = JBool False,
              initConnectionParams = JUndefined, apiId = JUndefined, apiHash = JUndefined \<rparr>"
  let ?s = "with_entourage E st ?r"
  let ?t = "session_of_slot E (legacy_as_slot E st)"
  have ne: "?ks \<noteq> []" using assms(5,6) by (rule legacy_keys_nonempty)
  have has: "hasStoredSession E st"
    using assms(2,3,4) by (simp add: hasStoredSession_def)
  have leg: "loadStoredLegacySession E st = Inr (Some ?s)"
    using has pu tu ne by (simp add: loadStoredLegacySession_def Let_def)
  have load: "loadStoredSession E st = Inr (Some ?s)"
    using assms(1,2,3) has leg by (simp add: loadStoredSession_def)
  have m: "mainDcId ?t = property userAuth ''dcID''"
    by (simp add: session_of_slot_def legacy_as_slot_property(1) [OF pu])
  have m1: "mainDcId ?s = Number_of E (mainDcId ?t)"
    by (simp add: with_entourage_fields m)
  have m2: "mainDcId ?t = JNum n \<Longrightarrow> mainDcId ?s = JNum n" for n
  proof -
    assume "mainDcId ?t = JNum n"
    then have "Number_of E (mainDcId ?t) = JNum n" by (simp add: Number_of_def)
    then show ?thesis by (simp only: m1)
  qed
  have k: "key_of (keys ?t) d = or_undefined (key_of (keys ?s) d)" for d
    by (simp add: with_entourage_fields session_of_slot_def slot_keys_lookup legacy_keys_lookup
          legacy_as_slot_property(3) [OF pu] or_undefined_def)
  have t: "isTest ?t = or_undefined (isTest ?s)"
    by (simp add: with_entourage_fields session_of_slot_def legacy_as_slot_property(2) [OF pu])
  show ?thesis using load m1 m2 k t by blast
qed

theorem legacy_load_refines_witness:
  \<open>\<not> DEBUG example_env \<and> no_slot (ACCOUNT_SLOT example_env)
   \<and> loadSlotSession example_env
         [''user_auth'' \<mapsto> ''{"dcID":2,"id":"7"}'', ''dc2_auth_key'' \<mapsto> ''"k2"'']
         (ACCOUNT_SLOT example_env) = JUndefined
   \<and> legacy_user_stored example_env
         [''user_auth'' \<mapsto> ''{"dcID":2,"id":"7"}'', ''dc2_auth_key'' \<mapsto> ''"k2"'']
   \<and> 2 \<in> set (DC_IDS example_env)
   \<and> legacy_key example_env
         [''user_auth'' \<mapsto> ''{"dcID":2,"id":"7"}'', ''dc2_auth_key'' \<mapsto> ''"k2"''] 2 \<noteq> None
   \<and> (\<exists>s. loadStoredSession example_env
              [''user_auth'' \<mapsto> ''{"dcID":2,"id":"7"}'', ''dc2_auth_key'' \<mapsto> ''"k2"'']
              = Inr (Some s)
          \<and> mainDcId s = JNum 2
          \<and> isTest (session_of_slot example_env (legacy_as_slot example_env
              [''user_auth'' \<mapsto> ''{"dcID":2,"id":"7"}'', ''dc2_auth_key'' \<mapsto> ''"k2"'']))
              = or_undefined (isTest s))\<close>
proof -
  let ?st = \<open>[''user_auth'' \<mapsto> ''{"dcID":2,"id":"7"}'', ''dc2_auth_key'' \<mapsto> ''"k2"'']\<close>
  have a: "\<not> DEBUG example_env" and b: "no_slot (ACCOUNT_SLOT example_env)"
    and e: "2 \<in> set (DC_IDS example_env)"
    by (simp_all add: example_defs no_slot_def)
  have c: "loadSlotSession example_env ?st (ACCOUNT_SLOT example_env) = JUndefined"
    by (simp add: store_defs example_defs session_defs)
  have d: "legacy_user_stored example_env ?st"
    by (simp add: store_defs example_defs session_defs)
  have f: "legacy_key example_env ?st 2 \<noteq> None"
    by (simp add: legacy_key_def store_defs example_defs session_defs)
  have m: "mainDcId (session_of_slot example_env (legacy_as_slot example_env ?st)) = JNum 2"
    by (simp add: session_of_slot_def legacy_as_slot_def legacy_key_def
          store_defs example_defs session_defs)
  from legacy_load_refines [OF a b c d e f] m a b c d e f show ?thesis by auto
qed

text \<open>
  The two paths differ on \<^verbatim>\<open>isTest\<close>: a legacy user item with \<^verbatim>\<open>test: false\<close> loads
  with \<^verbatim>\<open>isTest = false\<close>, and a slot item with the same data loads with
  \<^verbatim>\<open>isTest = undefined\<close>.
\<close>

theorem legacy_load_counterexample:
  \<open>loadSlotSession example_env
      [''user_auth'' \<mapsto> ''{"dcID":2,"id":"7","test":false}'', ''dc2_auth_key'' \<mapsto> ''"k2"'']
      (ACCOUNT_SLOT example_env) = JUndefined
   \<and> legacy_user_stored example_env
      [''user_auth'' \<mapsto> ''{"dcID":2,"id":"7","test":false}'', ''dc2_auth_key'' \<mapsto> ''"k2"'']
   \<and> loadStoredSession example_env
      [''user_auth'' \<mapsto> ''{"dcID":2,"id":"7","test":false}'', ''dc2_auth_key'' \<mapsto> ''"k2"'']
      = Inr (Some \<lparr> mainDcId = JNum 2, keys = [(2, JStr ''k2'')], isTest = JBool False,
                     isLocalStorage = JBool False, initConnectionParams = JUndefined,
                     apiId = JUndefined, apiHash = JUndefined \<rparr>)
   \<and> loadStoredSession example_env
      [''account1'' \<mapsto> ''{"dcId":2,"userId":"7","isTest":false,"dc2_auth_key":"k2"}'']
      = Inr (Some \<lparr> mainDcId = JNum 2, keys = [(2, JStr ''k2'')], isTest = JUndefined,
                     isLocalStorage = JUndefined, initConnectionParams = JUndefined,
                     apiId = JUndefined, apiHash = JUndefined \<rparr>)
   \<and> legacy_as_slot example_env
      [''user_auth'' \<mapsto> ''{"dcID":2,"id":"7","test":false}'', ''dc2_auth_key'' \<mapsto> ''"k2"'']
      = JObj [(''dcId'', JNum 2), (''userId'', JStr ''7''), (''isTest'', JBool False),
              (''dc2_auth_key'', JStr ''k2'')]\<close>
  by (simp add: store_defs example_defs session_defs loadStoredSession_def
        loadStoredLegacySession_def legacy_keys_step_def with_entourage_def
        session_of_slot_def slot_keys_step_def or_undefined_def legacy_as_slot_def legacy_key_def)

section \<open>Termination of the deletion loop\<close>

lemma deleteTopic_run:
  assumes "last_request req n" and "\<forall>j < n. \<not> last_request req j" and "i \<le> n"
  shows "deleteTopic req i done =
           Some (Suc n, done @ map (the \<circ> req) [i..<n]
                          @ (case req n of None \<Rightarrow> [] | Some r \<Rightarrow> [r]))"
  using assms(3)
proof (induction "n - i" arbitrary: i "done")
  case 0
  then have "i = n" by simp
  with assms(1) show ?case
    by (subst deleteTopic.simps) (simp add: last_request_def split: option.splits)
next
  case (Suc k)
  then have lt: "i < n" and k: "k = n - Suc i" and le: "Suc i \<le> n" by simp_all
  from lt assms(2) have "\<not> last_request req i" by simp
  then obtain r where r: "req i = Some r" "offset r \<noteq> 0"
    by (auto simp: last_request_def split: option.splits)
  have "deleteTopic req i done = deleteTopic req (Suc i) (done @ [r])"
    by (subst deleteTopic.simps) (simp add: r)
  also have "\<dots> = Some (Suc n, (done @ [r]) @ map (the \<circ> req) [Suc i..<n]
                          @ (case req n of None \<Rightarrow> [] | Some r \<Rightarrow> [r]))"
    using Suc.hyps(1) [OF k le] .
  finally have run: "deleteTopic req i done =
      Some (Suc n, (done @ [r]) @ map (the \<circ> req) [Suc i..<n]
                     @ (case req n of None \<Rightarrow> [] | Some r \<Rightarrow> [r]))" .
  have "(done @ [r]) @ map (the \<circ> req) [Suc i..<n] = done @ map (the \<circ> req) [i..<n]"
    using lt r by (simp add: upt_conv_Cons)
  with run show ?case by simp
qed

lemma decrease_reaches_end:
  assumes "offsets_decrease req" and "req i = Some r" and "0 \<le> offset r"
  shows "\<exists>n. last_request req n"
  using assms(2,3)
proof (induction "nat (offset r)" arbitrary: i r rule: less_induct)
  case less
  show ?case
  proof (cases "offset r = 0")
    case True
    with less.prems have "last_request req i" by (simp add: last_request_def)
    then show ?thesis ..
  next
    case False
    show ?thesis
    proof (cases "req (Suc i)")
      case None
      then have "last_request req (Suc i)" by (simp add: last_request_def)
      then show ?thesis ..
    next
      case (Some r')
      with assms(1) less.prems False have d: "0 \<le> offset r'" "offset r' < offset r"
        by (auto simp: offsets_decrease_def)
      then have "nat (offset r') < nat (offset r)" by simp
      from less.hyps [OF this Some d(1)] show ?thesis .
    qed
  qed
qed

lemma decrease_stops:
  assumes "offsets_decrease req"
  shows "\<exists>n. last_request req n"
proof (cases "req 0")
  case None
  then have "last_request req 0" by (simp add: last_request_def)
  then show ?thesis ..
next
  case (Some r)
  show ?thesis
  proof (cases "offset r = 0")
    case True
    with Some have "last_request req 0" by (simp add: last_request_def)
    then show ?thesis ..
  next
    case False
    show ?thesis
    proof (cases "req (Suc 0)")
      case None
      then have "last_request req (Suc 0)" by (simp add: last_request_def)
      then show ?thesis ..
    next
      case r': (Some r')
      with assms Some False have "0 \<le> offset r'" by (auto simp: offsets_decrease_def)
      with assms r' show ?thesis by (rule decrease_reaches_end)
    qed
  qed
qed

text \<open>
  C7. If the offsets of successive results strictly decrease (or some request has no
  result or a result with offset zero), \<^verbatim>\<open>deleteTopic\<close> returns. It has then sent the
  requests 0 to \<open>n\<close>, every result before the last had a non-zero offset and led to the
  next request, the last request had no result or a result with offset zero, and every
  result was handed to \<^verbatim>\<open>processAffectedHistory\<close>, in order.
\<close>

theorem deleteTopic_terminates:
  assumes "offsets_decrease invokeRequest \<or> (\<exists>n. last_request invokeRequest n)"
  shows "\<exists>n. deleteTopic invokeRequest 0 [] =
               Some (Suc n, map (the \<circ> invokeRequest) [0..<n]
                              @ (case invokeRequest n of None \<Rightarrow> [] | Some r \<Rightarrow> [r]))
           \<and> (\<forall>i < n. \<exists>r. invokeRequest i = Some r \<and> offset r \<noteq> 0)
           \<and> (case invokeRequest n of None \<Rightarrow> True | Some r \<Rightarrow> offset r = 0)"
proof -
  from assms have "\<exists>n. last_request invokeRequest n" using decrease_stops by blast
  then obtain n where n: "last_request invokeRequest n"
    and least: "\<forall>j < n. \<not> last_request invokeRequest j"
    by (meson exists_least_iff)
  have run: "deleteTopic invokeRequest 0 [] =
               Some (Suc n, map (the \<circ> invokeRequest) [0..<n]
                              @ (case invokeRequest n of None \<Rightarrow> [] | Some r \<Rightarrow> [r]))"
    using deleteTopic_run [OF n least, of 0 "[]"] by simp
  have before: "\<forall>i < n. \<exists>r. invokeRequest i = Some r \<and> offset r \<noteq> 0"
    using least by (auto simp: last_request_def split: option.splits)
  have final: "case invokeRequest n of None \<Rightarrow> True | Some r \<Rightarrow> offset r = 0"
    using n by (simp add: last_request_def)
  from run before final show ?thesis by blast
qed

theorem deleteTopic_terminates_witness:
  "offsets_decrease example_replies
   \<and> (\<exists>n. deleteTopic example_replies 0 [] =
               Some (Suc n, map (the \<circ> example_replies) [0..<n]
                              @ (case example_replies n of None \<Rightarrow> [] | Some r \<Rightarrow> [r]))
           \<and> (\<forall>i < n. \<exists>r. example_replies i = Some r \<and> offset r \<noteq> 0)
           \<and> (case example_replies n of None \<Rightarrow> True | Some r \<Rightarrow> offset r = 0))
   \<and> deleteTopic example_replies 0 [] =
        Some (3, [\<lparr> pts = 10, ptsCount = 5, offset = 2 \<rparr>, \<lparr> pts = 15, ptsCount = 5, offset = 1 \<rparr>,
                  \<lparr> pts = 18, ptsCount = 3, offset = 0 \<rparr>])"
proof -
  have d: "offsets_decrease example_replies"
    by (auto simp: offsets_decrease_def example_replies_def split: if_splits)
  have v: "deleteTopic example_replies 0 [] =
        Some (3, [\<lparr> pts = 10, ptsCount = 5, offset = 2 \<rparr>, \<lparr> pts = 15, ptsCount = 5, offset = 1 \<rparr>,
                  \<lparr> pts = 18, ptsCount = 3, offset = 0 \<rparr>])"
    by (simp add: deleteTopic.simps example_replies_def)
  from deleteTopic_terminates [of example_replies] d v show ?thesis by blast
qed

section \<open>One request for concurrent calls\<close>

lemma pending_iff:
  "consistent st \<Longrightarrow> fullChatRequestDedupe st chatId = Some p \<longleftrightarrow> pending st chatId p"
  by (simp add: consistent_def)

lemma pending_unique:
  assumes "consistent st" and "pending st chatId p" and "pending st chatId q"
  shows "p = q"
proof -
  from assms(1,2) have "fullChatRequestDedupe st chatId = Some p" by (simp add: pending_iff)
  moreover from assms(1,3) have "fullChatRequestDedupe st chatId = Some q" by (simp add: pending_iff)
  ultimately show ?thesis by simp
qed

lemma consistent_loaded: "consistent module_loaded"
  by (simp add: consistent_def module_loaded_def pending_def)

lemma consistent_fetch:
  assumes "consistent st"
  shows "consistent (snd (fetchFullChat chatId st))"
proof (cases "fullChatRequestDedupe st chatId")
  case (Some p)
  with assms show ?thesis by (simp add: fetchFullChat_def)
next
  case None
  have fresh: "resolved st (length (started st)) = None"
    using assms by (auto simp: consistent_def)
  from assms None have nopend: "\<not> pending st chatId p" for p
    unfolding consistent_def by (metis option.distinct(1))
  show ?thesis
    unfolding consistent_def
  proof (intro conjI allI)
    fix i p
    show "fullChatRequestDedupe (snd (fetchFullChat chatId st)) i = Some p
            \<longleftrightarrow> pending (snd (fetchFullChat chatId st)) i p"
      using assms None fresh nopend [of p]
      by (auto simp: fetchFullChat_def Let_def consistent_def pending_def nth_append less_Suc_eq)
  next
    fix p
    show "resolved (snd (fetchFullChat chatId st)) p \<noteq> None
            \<longrightarrow> p < length (started (snd (fetchFullChat chatId st)))"
      using assms None by (auto simp: fetchFullChat_def Let_def consistent_def less_Suc_eq)
  qed
qed

lemma consistent_settle:
  assumes "consistent st"
  shows "consistent (settle q v st)"
proof (cases "q < length (started st) \<and> resolved st q = None")
  case False
  with assms show ?thesis by (auto simp: settle_def)
next
  case True
  then have pq: "pending st (started st ! q) q" by (simp add: pending_def)
  show ?thesis
    unfolding consistent_def
  proof (intro conjI allI)
    fix i p
    show "fullChatRequestDedupe (settle q v st) i = Some p \<longleftrightarrow> pending (settle q v st) i p"
    proof (cases "i = started st ! q")
      case same: True
      have "\<not> pending (settle q v st) i p"
      proof
        assume a: "pending (settle q v st) i p"
        with True have "pending st i p" and "p \<noteq> q"
          by (auto simp: settle_def pending_def split: if_splits)
        with assms pq same have "p = q" using pending_unique by blast
        with \<open>p \<noteq> q\<close> show False by simp
      qed
      with True same show ?thesis by (simp add: settle_def)
    next
      case other: False
      have "pending (settle q v st) i p \<longleftrightarrow> pending st i p"
        using True other by (auto simp: settle_def pending_def)
      with assms True other show ?thesis by (simp add: settle_def consistent_def)
    qed
  next
    fix p
    show "resolved (settle q v st) p \<noteq> None \<longrightarrow> p < length (started (settle q v st))"
      using assms True by (auto simp: settle_def consistent_def)
  qed
qed

lemma consistent_run: "consistent st \<Longrightarrow> consistent (run es st)"
proof (induction es arbitrary: st)
  case Nil
  then show ?case by simp
next
  case (Cons e es)
  then show ?case by (cases e) (simp_all add: consistent_fetch consistent_settle)
qed

lemma fetch_attached:
  "fullChatRequestDedupe st chatId = Some p \<Longrightarrow> fetchFullChat chatId st = (p, st)"
  by (simp add: fetchFullChat_def)

lemma fetch_other_keeps:
  assumes "consistent st" and "fullChatRequestDedupe st chatId = Some p"
  shows "fullChatRequestDedupe (snd (fetchFullChat i st)) chatId = Some p
    \<and> requests_for chatId (snd (fetchFullChat i st)) = requests_for chatId st"
proof (cases "fullChatRequestDedupe st i")
  case (Some q)
  then show ?thesis using assms(2) by (simp add: fetchFullChat_def)
next
  case None
  with assms(2) have "i \<noteq> chatId" by auto
  with None assms(2) show ?thesis
    by (simp add: fetchFullChat_def Let_def requests_for_def)
qed

lemma settle_other_keeps:
  assumes "consistent st" and "fullChatRequestDedupe st chatId = Some p" and "q \<noteq> p"
  shows "fullChatRequestDedupe (settle q v st) chatId = Some p
    \<and> requests_for chatId (settle q v st) = requests_for chatId st"
proof (cases "q < length (started st) \<and> resolved st q = None")
  case False
  with assms(2) show ?thesis by (auto simp: settle_def)
next
  case True
  have "started st ! q \<noteq> chatId"
  proof
    assume "started st ! q = chatId"
    with True have "pending st chatId q" by (simp add: pending_def)
    with assms(1,2) have "q = p" by (metis pending_iff pending_unique)
    with assms(3) show False by simp
  qed
  with True assms(2) show ?thesis by (simp add: settle_def requests_for_def)
qed

lemma run_keeps:
  assumes "consistent st" and "fullChatRequestDedupe st chatId = Some p"
    and "\<forall>v. Settle p v \<notin> set es"
  shows "fullChatRequestDedupe (run es st) chatId = Some p
    \<and> requests_for chatId (run es st) = requests_for chatId st"
  using assms
proof (induction es arbitrary: st)
  case Nil
  then show ?case by simp
next
  case (Cons e es)
  show ?case
  proof (cases e)
    case (Call i)
    from Cons.prems(1) have c: "consistent (snd (fetchFullChat i st))" by (rule consistent_fetch)
    from fetch_other_keeps [OF Cons.prems(1,2), of i]
    have k: "fullChatRequestDedupe (snd (fetchFullChat i st)) chatId = Some p"
      and r: "requests_for chatId (snd (fetchFullChat i st)) = requests_for chatId st" by simp_all
    from Cons.prems(3) have "\<forall>v. Settle p v \<notin> set es" by simp
    from Cons.IH [OF c k this] r Call show ?thesis by simp
  next
    case (Settle q v)
    with Cons.prems(3) have qp: "q \<noteq> p" by auto
    from Cons.prems(1) have c: "consistent (settle q v st)" by (rule consistent_settle)
    from settle_other_keeps [OF Cons.prems(1,2) qp, of v]
    have k: "fullChatRequestDedupe (settle q v st) chatId = Some p"
      and r: "requests_for chatId (settle q v st) = requests_for chatId st" by simp_all
    from Cons.prems(3) have "\<forall>v. Settle p v \<notin> set es" by simp
    from Cons.IH [OF c k this] r Settle show ?thesis by simp
  qed
qed

text \<open>
  C2. In any state the module can reach, let a call of \<^verbatim>\<open>fetchFullChat\<close> for a chat with
  no call pending return promise \<open>p1\<close>, and let a second call for the same chat follow
  after any further calls and settlements other than that of \<open>p1\<close>. The second call
  returns \<open>p1\<close>, exactly one underlying request has been started for the chat, \<open>p1\<close> is
  its only pending call, and once \<open>p1\<close> settles with \<open>v\<close> both callers hold \<open>v\<close>, the chat
  is gone from the map, and the next call starts a new request.
\<close>

theorem fetchFullChat_dedupe:
  assumes "st = run earlier module_loaded"
    and "fullChatRequestDedupe st chatId = None"
    and "fetchFullChat chatId st = (p1, st1)"
    and "\<forall>v. Settle p1 v \<notin> set between"
    and "fetchFullChat chatId (run between st1) = (p2, st2)"
  shows "p2 = p1
    \<and> requests_for chatId st2 = Suc (requests_for chatId st)
    \<and> (\<forall>q. pending st2 chatId q \<longrightarrow> q = p1)
    \<and> fullChatRequestDedupe (settle p1 v st2) chatId = None
    \<and> fst (fetchFullChat chatId (settle p1 v st2)) \<noteq> p1
    \<and> requests_for chatId (snd (fetchFullChat chatId (settle p1 v st2))) = Suc (requests_for chatId st2)
    \<and> resolved (settle p1 v st2) p1 = Some v
    \<and> resolved (settle p1 v st2) p2 = Some v"
proof -
  have c: "consistent st" using assms(1) consistent_loaded consistent_run by blast
  have st1: "st1 = snd (fetchFullChat chatId st)" and p1: "p1 = length (started st)"
    using assms(2,3) by (auto simp: fetchFullChat_def Let_def)
  have c1: "consistent st1" using c st1 by (simp add: consistent_fetch)
  have d1: "fullChatRequestDedupe st1 chatId = Some p1"
    using assms(2,3) by (auto simp: fetchFullChat_def Let_def)
  have r1: "requests_for chatId st1 = Suc (requests_for chatId st)"
    using assms(2,3) by (auto simp: fetchFullChat_def Let_def requests_for_def)
  from run_keeps [OF c1 d1 assms(4)]
  have d2: "fullChatRequestDedupe (run between st1) chatId = Some p1"
    and r2: "requests_for chatId (run between st1) = requests_for chatId st1" by simp_all
  from assms(5) d2 have e: "p2 = p1" "st2 = run between st1"
    by (simp_all add: fetch_attached)
  have c2: "consistent st2" using c1 e(2) by (simp add: consistent_run)
  have pend: "pending st2 chatId p1" using c2 d2 e(2) by (simp add: pending_iff)
  have only: "\<forall>q. pending st2 chatId q \<longrightarrow> q = p1"
    using c2 pend pending_unique by blast
  from pend have s: "fullChatRequestDedupe (settle p1 v st2) chatId = None"
    by (simp add: settle_def pending_def)
  have len: "p1 < length (started (settle p1 v st2))"
    using pend by (simp add: settle_def pending_def)
  have n: "fst (fetchFullChat chatId (settle p1 v st2)) = length (started (settle p1 v st2))"
    using s by (simp add: fetchFullChat_def Let_def)
  have rs: "requests_for chatId (settle p1 v st2) = requests_for chatId st2"
    by (simp add: settle_def requests_for_def)
  have r3: "requests_for chatId (snd (fetchFullChat chatId (settle p1 v st2))) = Suc (requests_for chatId st2)"
    using s rs by (simp add: fetchFullChat_def Let_def requests_for_def)
  have v1: "resolved (settle p1 v st2) p1 = Some v"
    using pend by (simp add: settle_def pending_def)
  from e(1) r1 r2 e(2) only s len n r3 v1 show ?thesis by simp
qed

theorem fetchFullChat_dedupe_witness:
  "fullChatRequestDedupe (run [] (module_loaded :: unit fetch_state)) ''-100'' = None
   \<and> fetchFullChat ''-100'' (run [] (module_loaded :: unit fetch_state))
       = (0, \<lparr> fullChatRequestDedupe = [''-100'' \<mapsto> 0], started = [''-100''], resolved = Map.empty \<rparr>)
   \<and> (\<forall>v. Settle 0 v \<notin> set [Call ''42'', Call ''-100''])
   \<and> fst (fetchFullChat ''-100'' (run [Call ''42'', Call ''-100'']
        \<lparr> fullChatRequestDedupe = [''-100'' \<mapsto> 0], started = [''-100''],
          resolved = (Map.empty :: nat \<rightharpoonup> unit) \<rparr>)) = 0
   \<and> requests_for ''-100'' (snd (fetchFullChat ''-100'' (run [Call ''42'', Call ''-100'']
        \<lparr> fullChatRequestDedupe = [''-100'' \<mapsto> 0], started = [''-100''],
          resolved = (Map.empty :: nat \<rightharpoonup> unit) \<rparr>))) = 1"
proof -
  let ?st1 = "\<lparr> fullChatRequestDedupe = [''-100'' \<mapsto> 0], started = [''-100''],
          resolved = (Map.empty :: nat \<rightharpoonup> unit) \<rparr>"
  have a: "fullChatRequestDedupe (run [] (module_loaded :: unit fetch_state)) ''-100'' = None"
    by (simp add: module_loaded_def)
  have b: "fetchFullChat ''-100'' (run [] (module_loaded :: unit fetch_state)) = (0, ?st1)"
    by (simp add: module_loaded_def fetchFullChat_def)
  have c: "\<forall>v. Settle 0 v \<notin> set [Call ''42'', Call ''-100'']" by simp
  have r0: "requests_for ''-100'' (run [] (module_loaded :: unit fetch_state)) = 0"
    by (simp add: module_loaded_def requests_for_def)
  from fetchFullChat_dedupe [OF refl a b c surjective_pairing] a b c r0
  show ?thesis by simp
qed

section \<open>Ordered delivery of updates\<close>




























end
